theory Spec2Isabelle
  imports Complex_Main "HOL-Library.AList"
begin

section \<open>Numbers\<close>

text \<open>
  The wheel computes with JavaScript numbers. The properties studied here are the
  algebraic ones (the specification speaks of exact arithmetic), so a number is a
  \<open>real\<close>: no rounding, no NaN, no Infinity. The remainder operator \<open>%\<close> of JavaScript
  truncates the quotient towards zero, so its result has the sign of the dividend.
\<close>

definition trunc :: "real \<Rightarrow> int" where
  "trunc x = (if 0 \<le> x then \<lfloor>x\<rfloor> else \<lceil>x\<rceil>)"

definition jsmod :: "real \<Rightarrow> real \<Rightarrow> real" where
  "jsmod a b = a - b * of_int (trunc (a / b))"

text \<open>
  The idiom \<open>((x % 360) + 360) % 360\<close> occurs in \<open>buildTicketAngleMap\<close> and in the winner
  calculation of \<open>spinWheel\<close>; the specification calls it \<open>normalize\<close>.
\<close>

definition normalize360 :: "real \<Rightarrow> real" where
  "normalize360 x = jsmod (jsmod x 360 + 360) 360"

section \<open>ticket-angle-mapper.ts\<close>

record entry =
  ticketNumber :: string
  label :: string

text \<open>
  A JavaScript \<open>Map\<close> keeps its keys in insertion order; \<open>set\<close> on a key that is present
  replaces the value in place, \<open>set\<close> on a new key appends, \<open>size\<close> counts the keys.
  An association list with \<open>AList.update\<close> behaves the same way.
\<close>

record TicketAngleMap =
  ticketToAngle :: "(string \<times> real) list"
  ticketToIndex :: "(string \<times> nat) list"

definition emptyTicketAngleMap :: TicketAngleMap where
  "emptyTicketAngleMap = \<lparr>ticketToAngle = [], ticketToIndex = []\<rparr>"

text \<open>The body of the \<open>forEach\<close> callback of \<open>buildTicketAngleMap\<close>.\<close>

definition segmentCenter :: "real \<Rightarrow> nat \<Rightarrow> real" where
  "segmentCenter sliceAngle index =
     (let sliceStart = real index * sliceAngle - 90;
          segmentCenterAngle = sliceStart + sliceAngle / 2;
          normalizedAngle = jsmod (jsmod segmentCenterAngle 360 + 360) 360
      in normalizedAngle)"

definition setEntry :: "real \<Rightarrow> 'a entry_scheme \<Rightarrow> nat \<Rightarrow> TicketAngleMap \<Rightarrow> TicketAngleMap" where
  "setEntry sliceAngle e index m =
     \<lparr>ticketToAngle = AList.update (ticketNumber e) (segmentCenter sliceAngle index) (ticketToAngle m),
      ticketToIndex = AList.update (ticketNumber e) index (ticketToIndex m)\<rparr>"

fun forEachEntry :: "real \<Rightarrow> 'a entry_scheme list \<Rightarrow> nat \<Rightarrow> TicketAngleMap \<Rightarrow> TicketAngleMap" where
  "forEachEntry sliceAngle [] index m = m"
| "forEachEntry sliceAngle (e # es) index m =
     forEachEntry sliceAngle es (Suc index) (setEntry sliceAngle e index m)"

definition buildTicketAngleMap :: "'a entry_scheme list \<Rightarrow> TicketAngleMap" where
  "buildTicketAngleMap es =
     (if length es = 0 then emptyTicketAngleMap
      else let sliceAngle = 360 / real (length es)
           in forEachEntry sliceAngle es 0 emptyTicketAngleMap)"

text \<open>\<open>getAngleForTicket\<close>: \<open>null\<close> is \<open>None\<close>.\<close>

definition getAngleForTicket :: "string \<Rightarrow> TicketAngleMap \<Rightarrow> real option" where
  "getAngleForTicket t m = map_of (ticketToAngle m) t"

section \<open>fixed-spin-physics.ts\<close>

datatype RotationProfile = ProfileA | ProfileB | ProfileC

datatype spinError = TicketNotFound string | InvalidFixedRotation

record FixedSpinResult =
  endRotation :: real
  duration :: real
  profile :: "RotationProfile option"

text \<open>
  Every call of \<open>Math.random()\<close> is an input of the model: one field per call site.
  \<open>Math.random()\<close> returns a number in \<open>[0, 1)\<close>; theorems that need the range say so.
\<close>

record draws =
  rndProfile :: real
  rndDuration :: real
  rndRotations :: real
  rndMicro :: real
  rndSpins :: real
  rndAngle :: real

text \<open>
  \<open>profile || ['A', 'B', 'C'][Math.floor(Math.random() * 3)]\<close>: an index outside the
  array reads \<open>undefined\<close>, here \<open>None\<close>, which the \<open>switch\<close> sends to its default branch.
\<close>

definition selectProfile :: "RotationProfile option \<Rightarrow> real \<Rightarrow> RotationProfile option" where
  "selectProfile p u =
     (case p of
        Some q \<Rightarrow> Some q
      | None \<Rightarrow>
          (let k = \<lfloor>u * 3\<rfloor>
           in if k = 0 then Some ProfileA
              else if k = 1 then Some ProfileB
              else if k = 2 then Some ProfileC
              else None))"

text \<open>The \<open>switch\<close>: (minRotations, maxRotations, baseMicroOffsetRange, duration).\<close>

definition profileParams :: "RotationProfile option \<Rightarrow> real \<Rightarrow> real \<times> real \<times> real \<times> real" where
  "profileParams p u =
     (case p of
        Some ProfileA \<Rightarrow> (5.5, 8.2, 3, 11000 + u * 500 - 250)
      | Some ProfileB \<Rightarrow> (6.0, 7.8, 2.5, 11000 + u * 400 - 200)
      | Some ProfileC \<Rightarrow> (5.2, 8.5, 3.5, 11000 + u * 600 - 300)
      | None \<Rightarrow> (5, 8, 4, 11000))"

definition baseMicroOffsetRange :: "RotationProfile option \<Rightarrow> real" where
  "baseMicroOffsetRange p = (case profileParams p 0 of (mn, mx, base, dur) \<Rightarrow> base)"

definition fixedRotations :: "RotationProfile option \<Rightarrow> real \<Rightarrow> real" where
  "fixedRotations p u =
     (case profileParams p 0 of (minRotations, maxRotations, base, dur) \<Rightarrow>
        minRotations + u * (maxRotations - minRotations))"

definition angleToTarget :: "real \<Rightarrow> real \<Rightarrow> real" where
  "angleToTarget currentRotation targetAngle =
     (let currentPointerAngle = jsmod (360 - jsmod currentRotation 360) 360;
          d = targetAngle - currentPointerAngle
      in if d < 0 then d + 360 else d)"

definition microOffset :: "real \<Rightarrow> nat \<Rightarrow> real \<Rightarrow> real" where
  "microOffset base totalEntries u =
     (let sliceAngle = 360 / real totalEntries;
          maxSafeOffset = sliceAngle * 0.3;
          adaptiveMicroOffsetRange = min base maxSafeOffset
      in (u - 0.5) * adaptiveMicroOffsetRange)"

definition calculateFixedSpinByTicket ::
  "real \<Rightarrow> string \<Rightarrow> TicketAngleMap \<Rightarrow> RotationProfile option \<Rightarrow> draws \<Rightarrow> spinError + FixedSpinResult" where
  "calculateFixedSpinByTicket currentRotation t m p d =
     (case map_of (ticketToAngle m) t of
        None \<Rightarrow> Inl (TicketNotFound t)
      | Some targetAngle \<Rightarrow>
          (let selectedProfile = selectProfile p (rndProfile d);
               totalEntries = length (ticketToAngle m);
               dur = (case profileParams selectedProfile (rndDuration d) of (mn, mx, base, du) \<Rightarrow> du);
               rotations = fixedRotations selectedProfile (rndRotations d);
               totalRotation = rotations * 360 + angleToTarget currentRotation targetAngle
                               + microOffset (baseMicroOffsetRange selectedProfile) totalEntries (rndMicro d)
           in Inr \<lparr>endRotation = currentRotation + totalRotation,
                    duration = dur,
                    profile = selectedProfile\<rparr>))"

section \<open>WheelApp.jsx: the winner calculation\<close>

text \<open>The test of one slice, the body of the first \<open>for\<close> loop.\<close>

definition inSlice :: "nat \<Rightarrow> real \<Rightarrow> nat \<Rightarrow> bool" where
  "inSlice n pointerAngleInOriginal i =
     (let sliceAngle = 360 / real n;
          sliceStart = jsmod (real i * sliceAngle - 90 + 360) 360;
          sliceEnd = jsmod ((real i + 1) * sliceAngle - 90 + 360) 360
      in if sliceStart < sliceEnd
         then pointerAngleInOriginal \<ge> sliceStart \<and> pointerAngleInOriginal < sliceEnd
         else pointerAngleInOriginal \<ge> sliceStart \<or> pointerAngleInOriginal < sliceEnd)"

text \<open>The first loop, from index \<open>i\<close>: \<open>Some\<close> the index at which it breaks, \<open>None\<close> when
  \<open>found\<close> stays false.\<close>

function findSlice :: "nat \<Rightarrow> real \<Rightarrow> nat \<Rightarrow> nat option" where
  "findSlice n pa i =
     (if i < n then (if inSlice n pa i then Some i else findSlice n pa (Suc i)) else None)"
  by pat_completeness auto
termination
  by (relation "measure (\<lambda>(n, pa, i). n - i)") auto

declare findSlice.simps [simp del]

text \<open>The fallback loop; \<open>minDist = Infinity\<close> is \<open>None\<close>.\<close>

definition circularDistance :: "nat \<Rightarrow> real \<Rightarrow> nat \<Rightarrow> real" where
  "circularDistance n pa i =
     (let sliceAngle = 360 / real n;
          sliceCenter = jsmod (real i * sliceAngle - 90 + sliceAngle / 2 + 360) 360;
          dist = \<bar>pa - sliceCenter\<bar>
      in if dist > 180 then 360 - dist else dist)"

function closestCenter :: "nat \<Rightarrow> real \<Rightarrow> nat \<Rightarrow> real option \<Rightarrow> nat \<Rightarrow> nat" where
  "closestCenter n pa i minDist selectedIndex =
     (if i < n
      then (let dist = circularDistance n pa i
            in if (case minDist of None \<Rightarrow> True | Some md \<Rightarrow> dist < md)
               then closestCenter n pa (Suc i) (Some dist) i
               else closestCenter n pa (Suc i) minDist selectedIndex)
      else selectedIndex)"
  by pat_completeness auto
termination
  by (relation "measure (\<lambda>(n, pa, i, md, sel). n - i)") auto

declare closestCenter.simps [simp del]

definition pointerAngle :: "real \<Rightarrow> real" where
  "pointerAngle frozenRot =
     (let R = jsmod (jsmod frozenRot 360 + 360) 360
      in jsmod (360 - R) 360)"

text \<open>
  The whole block. The selected index is a loop counter, so it is never negative and
  the branch \<open>selectedIndex < 0\<close> of the source is dead; the index is a \<open>nat\<close>.
\<close>

definition resolveWinner :: "nat \<Rightarrow> real \<Rightarrow> nat" where
  "resolveWinner n frozenRot =
     (let pa = pointerAngle frozenRot;
          selectedIndex = (case findSlice n pa 0 of
                             Some i \<Rightarrow> i
                           | None \<Rightarrow> closestCenter n pa 0 None 0)
      in selectedIndex mod n)"

section \<open>WheelApp.jsx: the spin request\<close>

text \<open>
  The state \<open>spinWheel\<close> reads and writes: the refs and the React state of the component,
  and, for the animation in flight, the variables \<open>startRotation\<close>, \<open>endRotation\<close> and
  \<open>duration\<close> that the \<open>animate\<close> closure holds.
\<close>

record SpinPlan =
  planStart :: real
  planEnd :: real
  planDuration :: real

record WinnerInfo =
  winnerTicketNumber :: "string option"
  winnerIndex :: nat

record WheelState =
  namesRef :: "string list"
  ticketNumbersRef :: "string list"
  ticketAngleMapRef :: "TicketAngleMap option"
  fixedTicketsQueueRef :: "string list"
  spinCountRef :: nat
  isSpinning :: bool
  finalRotation :: real
  isFrozenRef :: bool
  animationCompletedRef :: bool
  winnerProcessedRef :: bool
  animationFrameRef :: bool
  winner :: "WinnerInfo option"
  inFlight :: "SpinPlan option"

text \<open>
  \<open>x || null\<close> on a string: the empty string is falsy, so it becomes \<open>null\<close>.
\<close>

definition orNull :: "string \<Rightarrow> string option" where
  "orNull x = (if x = [] then None else Some x)"

text \<open>STEP 1 of \<open>spinWheel\<close>: the next ticket of the queue, and the state after the shift.\<close>

definition consumeQueue :: "WheelState \<Rightarrow> string option \<times> WheelState" where
  "consumeQueue s =
     (case fixedTicketsQueueRef s of
        t # queueCopy \<Rightarrow>
          (orNull t, s\<lparr>fixedTicketsQueueRef := queueCopy, spinCountRef := spinCountRef s + 1\<rparr>)
      | [] \<Rightarrow> (None, s\<lparr>spinCountRef := spinCountRef s + 1\<rparr>))"

text \<open>The natural spin, written twice in the source (the \<open>catch\<close> and the \<open>else\<close> branch).\<close>

definition naturalEndRotation :: "real \<Rightarrow> draws \<Rightarrow> real" where
  "naturalEndRotation startRotation d =
     (let minRotations = 5;
          maxRotations = 8;
          spins = minRotations + rndSpins d * (maxRotations - minRotations);
          totalRotationDegrees = spins * 360;
          randomAngle = rndAngle d * 360
      in startRotation + totalRotationDegrees + randomAngle)"

text \<open>
  The body of the \<open>try\<close> block. The check \<open>isNaN(fixedResult.endRotation)\<close> cannot fire on
  reals, so the second \<open>throw\<close> has no branch here.
\<close>

definition tryFixedSpin ::
  "real \<Rightarrow> string \<Rightarrow> TicketAngleMap \<Rightarrow> nat \<Rightarrow> draws \<Rightarrow> spinError + FixedSpinResult" where
  "tryFixedSpin startRotation currentFixedTicket m spinCount d =
     (case getAngleForTicket currentFixedTicket m of
        None \<Rightarrow> Inl (TicketNotFound currentFixedTicket)
      | Some targetAngle \<Rightarrow>
          (let profileIndex = spinCount mod 3;
               selectedProfile = [ProfileA, ProfileB, ProfileC] ! profileIndex
           in calculateFixedSpinByTicket startRotation currentFixedTicket m (Some selectedProfile) d))"

text \<open>STEP 2: the end rotation and the duration, and the state (the \<open>catch\<close> clears the queue).\<close>

definition computeRotation :: "string option \<Rightarrow> WheelState \<Rightarrow> draws \<Rightarrow> SpinPlan \<times> WheelState" where
  "computeRotation currentFixedTicket s d =
     (let startRotation = finalRotation s;
          natural = \<lparr>planStart = startRotation,
                     planEnd = naturalEndRotation startRotation d,
                     planDuration = 11000\<rparr>
      in case (currentFixedTicket, ticketAngleMapRef s) of
           (Some t, Some m) \<Rightarrow>
             (case tryFixedSpin startRotation t m (spinCountRef s) d of
                Inr fixedResult \<Rightarrow>
                  (\<lparr>planStart = startRotation,
                    planEnd = endRotation fixedResult,
                    planDuration = duration fixedResult\<rparr>, s)
              | Inl error \<Rightarrow> (natural, s\<lparr>fixedTicketsQueueRef := []\<rparr>))
         | _ \<Rightarrow> (natural, s))"

text \<open>
  \<open>spinWheel\<close>. Every \<open>throw\<close> is inside the \<open>try\<close>, so the result is always \<open>Inr\<close>;
  the sum type keeps an exception that would leave the function visible.
  The guard returns \<open>undefined\<close>, as the end of the function does.
\<close>

definition spinWheel :: "WheelState \<Rightarrow> draws \<Rightarrow> spinError + WheelState" where
  "spinWheel s d =
     (if isSpinning s \<or> length (namesRef s) = 0 then Inr s
      else
        (let s1 = s\<lparr>animationFrameRef := False, isFrozenRef := False,
                    animationCompletedRef := False, winnerProcessedRef := False,
                    isSpinning := True\<rparr>;
             (currentFixedTicket, s2) = consumeQueue s1;
             (plan, s3) = computeRotation currentFixedTicket s2 d
         in Inr (s3\<lparr>inFlight := Some plan, animationFrameRef := True\<rparr>)))"

text \<open>
  The last frame of \<open>animate\<close> (\<open>progress = 1\<close>): the rotation is frozen at
  \<open>endRotation\<close> and the winner is resolved from it. The stripped display name and the
  colour of the winner are presentation and are left out of \<open>WinnerInfo\<close>.
\<close>

definition completeSpin :: "WheelState \<Rightarrow> WheelState" where
  "completeSpin s =
     (case inFlight s of
        None \<Rightarrow> s
      | Some plan \<Rightarrow>
          (if animationCompletedRef s then s\<lparr>animationFrameRef := False\<rparr>
           else
             (let selectedIndex = resolveWinner (length (namesRef s)) (planEnd plan);
                  winnerTicket = (if length (ticketNumbersRef s) > selectedIndex
                                  then Some (ticketNumbersRef s ! selectedIndex) else None)
              in s\<lparr>animationCompletedRef := True, animationFrameRef := False,
                    finalRotation := planEnd plan, isFrozenRef := True,
                    winner := Some \<lparr>winnerTicketNumber = winnerTicket, winnerIndex = selectedIndex\<rparr>,
                    isSpinning := False, winnerProcessedRef := False\<rparr>)))"




section \<open>The wheel storage\<close>

record WheelEntry = entry +
  firstName :: string
  lastName :: string

record WheelListSnapshot =
  entries :: "WheelEntry list"
  fixedTicketNumber :: "string option"
  fixedTicketsQueue :: "string list"
  lastUpdated :: nat

datatype storageError = TooManyTickets nat | DuplicateTickets | TicketNotInList string

text \<open>The loop \<open>for (const ticket of tickets)\<close> with its \<open>throw\<close>.\<close>

fun allTicketsExist :: "WheelEntry list \<Rightarrow> string list \<Rightarrow> storageError + unit" where
  "allTicketsExist es [] = Inr ()"
| "allTicketsExist es (ticket # rest) =
     (let exists = list_ex (\<lambda>e. ticketNumber e = ticket) es
      in if \<not> exists then Inl (TicketNotInList ticket) else allTicketsExist es rest)"

text \<open>
  \<open>setFixedTicketsQueue\<close> works on the module variable \<open>currentListSnapshot\<close>: the model
  takes it and returns it with the outcome. \<open>Date.now()\<close> is the argument \<open>now\<close>.
  The size of \<open>new Set(tickets)\<close> is the length of \<open>remdups tickets\<close>.
\<close>

definition setFixedTicketsQueue ::
  "string list \<Rightarrow> nat \<Rightarrow> WheelListSnapshot \<Rightarrow> (storageError + unit) \<times> WheelListSnapshot" where
  "setFixedTicketsQueue tickets now currentListSnapshot =
     (if length tickets > 3 then (Inl (TooManyTickets (length tickets)), currentListSnapshot)
      else if length (remdups tickets) \<noteq> length tickets then (Inl DuplicateTickets, currentListSnapshot)
      else case allTicketsExist (entries currentListSnapshot) tickets of
             Inl e \<Rightarrow> (Inl e, currentListSnapshot)
           | Inr u \<Rightarrow> (Inr (), currentListSnapshot\<lparr>fixedTicketsQueue := tickets, lastUpdated := now\<rparr>))"

section \<open>Auxiliary notions for the proofs\<close>

text \<open>
  The slices start at the top of the wheel (\<open>-90\<close> degrees). Turning an angle of
  \<open>[0, 360)\<close> by \<open>90\<close> degrees measures it from the start of slice \<open>0\<close>.
\<close>

definition shifted :: "real \<Rightarrow> real" where
  "shifted a = (if 270 \<le> a then a - 270 else a + 90)"

text \<open>
  Concrete inputs: a wheel of eight entries \<open>T1\<close> to \<open>T8\<close>, a list of 33 entries
  whose last entry repeats the ticket number of the first, draws of \<open>Math.random()\<close>, and states of the component and of the storage.
\<close>

definition wheel8 :: "entry list" where
  "wheel8 = map (\<lambda>t. \<lparr>ticketNumber = t, label = t\<rparr>) [''T1'', ''T2'', ''T3'', ''T4'', ''T5'', ''T6'', ''T7'', ''T8'']"

definition dupWheel33 :: "entry list" where
  "dupWheel33 = map (\<lambda>t. \<lparr>ticketNumber = t, label = t\<rparr>)
     [''T01'', ''T02'', ''T03'', ''T04'', ''T05'', ''T06'', ''T07'', ''T08'',
      ''T09'', ''T10'', ''T11'', ''T12'', ''T13'', ''T14'', ''T15'', ''T16'',
      ''T17'', ''T18'', ''T19'', ''T20'', ''T21'', ''T22'', ''T23'', ''T24'',
      ''T25'', ''T26'', ''T27'', ''T28'', ''T29'', ''T30'', ''T31'', ''T32'',
      ''T01'']"

definition drawsLow :: draws where
  "drawsLow = \<lparr>rndProfile = 0, rndDuration = 0, rndRotations = 0, rndMicro = 1/2, rndSpins = 0, rndAngle = 0\<rparr>"

definition drawsZero :: draws where
  "drawsZero = \<lparr>rndProfile = 0, rndDuration = 0, rndRotations = 0, rndMicro = 0, rndSpins = 0, rndAngle = 0\<rparr>"

definition idleWheel8 :: WheelState where
  "idleWheel8 =
     \<lparr>namesRef = [''Ann'', ''Bob'', ''Cid'', ''Dan'', ''Eve'', ''Fay'', ''Gus'', ''Hal''],
      ticketNumbersRef = map ticketNumber wheel8,
      ticketAngleMapRef = Some (buildTicketAngleMap wheel8),
      fixedTicketsQueueRef = [''T3''],
      spinCountRef = 0, isSpinning = False, finalRotation = 0,
      isFrozenRef = False, animationCompletedRef = False, winnerProcessedRef = False,
      animationFrameRef = False, winner = None, inFlight = None\<rparr>"

definition emptyWheel :: WheelState where
  "emptyWheel = idleWheel8\<lparr>namesRef := [], ticketNumbersRef := [], ticketAngleMapRef := None\<rparr>"

definition runningWheel8 :: WheelState where
  "runningWheel8 = (case spinWheel idleWheel8 drawsLow of Inr s \<Rightarrow> s | Inl e \<Rightarrow> idleWheel8)"



definition snapshot8 :: WheelListSnapshot where
  "snapshot8 =
     \<lparr>entries = map (\<lambda>t. \<lparr>ticketNumber = t, label = t, firstName = t, lastName = []\<rparr>)
                    [''T1'', ''T2'', ''T3'', ''T4'', ''T5'', ''T6'', ''T7'', ''T8''],
      fixedTicketNumber = None,
      fixedTicketsQueue = [''T5''],
      lastUpdated = 1000\<rparr>"

section \<open>The remainder and the normalisation\<close>

lemma jsmod_small: "0 \<le> x \<Longrightarrow> x < 360 \<Longrightarrow> jsmod x 360 = x"
proof -
  assume a: "0 \<le> x" "x < 360"
  have "\<lfloor>x / 360\<rfloor> = 0" using a by (simp add: floor_eq_iff)
  with a show ?thesis by (simp add: jsmod_def trunc_def)
qed

lemma jsmod_second: "360 \<le> x \<Longrightarrow> x < 720 \<Longrightarrow> jsmod x 360 = x - 360"
proof -
  assume a: "360 \<le> x" "x < 720"
  have "\<lfloor>x / 360\<rfloor> = 1" using a by (simp add: floor_eq_iff)
  with a show ?thesis by (simp add: jsmod_def trunc_def)
qed

lemma jsmod_nonneg: "0 \<le> x \<Longrightarrow> jsmod x 360 = x - 360 * of_int \<lfloor>x / 360\<rfloor>"
  by (simp add: jsmod_def trunc_def)

lemma floor_mod_range: "0 \<le> x - 360 * of_int \<lfloor>x / 360\<rfloor> \<and> x - 360 * of_int \<lfloor>x / 360\<rfloor> < (360::real)"
proof -
  define k where "k = \<lfloor>x / 360\<rfloor>"
  have "of_int k \<le> x / 360" "x / 360 < of_int k + 1" unfolding k_def by linarith+
  then have "0 \<le> x - 360 * of_int k \<and> x - 360 * of_int k < 360" by (simp add: field_simps)
  then show ?thesis by (simp add: k_def)
qed

lemma normalize360_floor: "normalize360 x = x - 360 * of_int \<lfloor>x / 360\<rfloor>"
proof (cases "0 \<le> x")
  case True
  let ?m = "x - 360 * of_int \<lfloor>x / 360\<rfloor>"
  have m: "jsmod x 360 = ?m" using True by (rule jsmod_nonneg)
  have r: "0 \<le> ?m \<and> ?m < 360" by (rule floor_mod_range)
  have "jsmod (?m + 360) 360 = ?m + 360 - 360" using r by (intro jsmod_second) auto
  then show ?thesis by (simp add: normalize360_def m)
next
  case False
  define c where "c = \<lceil>x / 360\<rceil>"
  let ?c = c
  let ?m = "x - 360 * of_int ?c"
  have m: "jsmod x 360 = ?m" using False by (simp add: jsmod_def trunc_def c_def)
  have c1: "x / 360 \<le> of_int ?c" "of_int ?c < x / 360 + 1" unfolding c_def by linarith+
  then have r: "-360 < ?m" "?m \<le> 0" by (simp_all add: field_simps)
  show ?thesis
  proof (cases "?m = 0")
    case True
    then have "x / 360 = of_int ?c" by simp
    then have fl: "\<lfloor>x / 360\<rfloor> = ?c" by simp
    have jm: "jsmod x 360 = 0" using m True by simp
    have "normalize360 x = jsmod 360 360" unfolding normalize360_def jm by simp
    also have "\<dots> = 0" by (simp add: jsmod_second)
    finally show ?thesis unfolding fl using True by simp
  next
    case False
    then have lt: "?m < 0" using r by simp
    then have "x / 360 < of_int ?c" by (simp add: field_simps)
    then have fl: "\<lfloor>x / 360\<rfloor> = ?c - 1" using c1 by (simp add: floor_eq_iff)
    have "jsmod (?m + 360) 360 = ?m + 360" using r lt by (intro jsmod_small) auto
    then have "normalize360 x = ?m + 360" unfolding normalize360_def m .
    then show ?thesis unfolding fl by simp
  qed
qed

lemma normalize360_range: "0 \<le> normalize360 x \<and> normalize360 x < 360"
  unfolding normalize360_floor by (rule floor_mod_range)

lemma pointerAngle_range: "0 \<le> pointerAngle r \<and> pointerAngle r < 360"
proof -
  let ?R = "normalize360 r"
  have R: "0 \<le> ?R \<and> ?R < 360" by (rule normalize360_range)
  have pa: "pointerAngle r = jsmod (360 - ?R) 360" by (simp add: pointerAngle_def normalize360_def)
  show ?thesis
  proof (cases "?R = 0")
    case True
    then have "pointerAngle r = 0" using pa by (simp add: jsmod_second)
    then show ?thesis by simp
  next
    case False
    then have "jsmod (360 - ?R) 360 = 360 - ?R" using R by (intro jsmod_small) auto
    then show ?thesis using R False pa by simp
  qed
qed

lemma jsmod_plus_360: "- 360 \<le> x \<Longrightarrow> jsmod (x + 360) 360 = normalize360 x"
proof -
  assume a: "- 360 \<le> x"
  have "jsmod (x + 360) 360 = (x + 360) - 360 * of_int \<lfloor>(x + 360) / 360\<rfloor>"
    using a by (intro jsmod_nonneg) simp
  also have "(x + 360) / 360 = x / 360 + 1" by simp
  also have "\<lfloor>x / 360 + 1\<rfloor> = \<lfloor>x / 360\<rfloor> + 1" by simp
  finally show ?thesis by (simp add: normalize360_floor algebra_simps)
qed

section \<open>The slices of the winner calculation\<close>

lemma inSlice_iff:
  assumes n: "i < n" and a: "0 \<le> a" "a < 360"
  shows "inSlice n a i \<longleftrightarrow>
         real i * (360 / real n) \<le> shifted a \<and> shifted a < (real i + 1) * (360 / real n)"
proof -
  define w where "w = 360 / real n"
  define x where "x = real i * w"
  define s where "s = x + 270"
  define e where "e = x + w + 270"
  have npos: "0 < real n" using n by simp
  have wpos: "0 < w" using npos by (simp add: w_def)
  have nw: "real n * w = 360" using npos by (simp add: w_def)
  have "(real i + 1) \<le> real n" using n by simp
  then have "(real i + 1) * w \<le> real n * w" using wpos by (simp add: mult_right_mono)
  then have "(real i + 1) * w \<le> 360" using nw by simp
  moreover have xw: "(real i + 1) * w = x + w" by (simp add: x_def algebra_simps)
  ultimately have ew: "x + w \<le> 360" by simp
  have x0: "0 \<le> x" using wpos by (simp add: x_def)
  have s_rng: "270 \<le> s" "s < 630" using x0 ew wpos by (simp_all add: s_def)
  have e_rng: "270 < e" "e \<le> 630" using x0 ew wpos by (simp_all add: e_def)
  have se: "e = s + w" by (simp add: s_def e_def)
  have start: "jsmod (real i * w - 90 + 360) 360 = (if s < 360 then s else s - 360)"
  proof -
    have eq: "real i * w - 90 + 360 = s" by (simp add: s_def x_def)
    show ?thesis unfolding eq using s_rng by (simp add: jsmod_small jsmod_second)
  qed
  have stop: "jsmod ((real i + 1) * w - 90 + 360) 360 = (if e < 360 then e else e - 360)"
  proof -
    have eq: "(real i + 1) * w - 90 + 360 = e" unfolding xw by (simp add: e_def)
    show ?thesis unfolding eq using e_rng by (simp add: jsmod_small jsmod_second)
  qed
  let ?start = "if s < 360 then s else s - 360"
  let ?stop = "if e < 360 then e else e - 360"
  have unfold: "inSlice n a i =
     (if ?start < ?stop then a \<ge> ?start \<and> a < ?stop else a \<ge> ?start \<or> a < ?stop)"
    unfolding inSlice_def Let_def w_def[symmetric] start stop ..
  have lin: "(if ?start < ?stop then a \<ge> ?start \<and> a < ?stop else a \<ge> ?start \<or> a < ?stop)
             \<longleftrightarrow> s \<le> shifted a + 270 \<and> shifted a + 270 < e"
    unfolding shifted_def using a s_rng e_rng se wpos by (auto split: if_splits)
  have goal: "real i * w \<le> shifted a \<and> shifted a < (real i + 1) * w \<longleftrightarrow> s \<le> shifted a + 270 \<and> shifted a + 270 < e"
    unfolding xw by (auto simp: s_def e_def x_def)
  show ?thesis unfolding w_def[symmetric] using unfold lin goal by simp
qed

lemma inSlice_normalize:
  "inSlice n a i \<longleftrightarrow>
     (if normalize360 (real i * (360 / real n) - 90) < normalize360 ((real i + 1) * (360 / real n) - 90)
      then normalize360 (real i * (360 / real n) - 90) \<le> a \<and> a < normalize360 ((real i + 1) * (360 / real n) - 90)
      else normalize360 (real i * (360 / real n) - 90) \<le> a \<or> a < normalize360 ((real i + 1) * (360 / real n) - 90))"
proof -
  have w: "0 \<le> 360 / real n" by simp
  have "0 \<le> real i * (360 / real n)" "0 \<le> (real i + 1) * (360 / real n)"
    using w by (simp_all del: of_nat_Suc)
  then have s: "jsmod (real i * (360 / real n) - 90 + 360) 360 = normalize360 (real i * (360 / real n) - 90)"
    and e: "jsmod ((real i + 1) * (360 / real n) - 90 + 360) 360 = normalize360 ((real i + 1) * (360 / real n) - 90)"
    by (intro jsmod_plus_360; linarith)+
  show ?thesis unfolding inSlice_def Let_def s e by simp
qed

lemma shifted_range: "0 \<le> a \<Longrightarrow> a < 360 \<Longrightarrow> 0 \<le> shifted a \<and> shifted a < 360"
  by (simp add: shifted_def)

lemma band_unique:
  fixes w b :: real
  assumes w: "0 < w" and b: "0 \<le> b" "b < real n * w"
  shows "\<exists>!i. i < n \<and> real i * w \<le> b \<and> b < (real i + 1) * w"
proof -
  define q where "q = b / w"
  have q0: "0 \<le> q" using w b by (simp add: q_def)
  have qn: "q < real n" using w b by (simp add: q_def field_simps)
  have band: "real i * w \<le> b \<and> b < (real i + 1) * w \<longleftrightarrow> real i \<le> q \<and> q < real i + 1" for i
    using w by (simp add: q_def field_simps)
  define k where "k = nat \<lfloor>q\<rfloor>"
  have fl: "0 \<le> \<lfloor>q\<rfloor>" using q0 by simp
  have rk: "real k = of_int \<lfloor>q\<rfloor>" using fl by (simp add: k_def)
  have k1: "real k \<le> q" "q < real k + 1" unfolding rk by linarith+
  have kn: "k < n" using k1 qn by linarith
  have uniq: "i = k" if "real i \<le> q" "q < real i + 1" for i
  proof -
    have "real i < real k + 1" "real k < real i + 1" using that k1 by linarith+
    then show ?thesis by linarith
  qed
  show ?thesis
  proof (rule ex1I [of _ k])
    show "k < n \<and> real k * w \<le> b \<and> b < (real k + 1) * w" using kn k1 band by blast
  next
    fix i assume "i < n \<and> real i * w \<le> b \<and> b < (real i + 1) * w"
    then show "i = k" using band uniq by blast
  qed
qed

lemma slice_partition:
  assumes n: "0 < n" and a: "0 \<le> a" "a < 360"
  shows "\<exists>!i. i < n \<and> inSlice n a i"
proof -
  have w: "0 < 360 / real n" using n by simp
  have "real n * (360 / real n) = 360" using n by simp
  then have b: "0 \<le> shifted a" "shifted a < real n * (360 / real n)"
    using shifted_range [OF a] by simp_all
  have "\<exists>!i. i < n \<and> real i * (360 / real n) \<le> shifted a \<and> shifted a < (real i + 1) * (360 / real n)"
    using w b by (rule band_unique)
  moreover have "(i < n \<and> inSlice n a i) \<longleftrightarrow>
      (i < n \<and> real i * (360 / real n) \<le> shifted a \<and> shifted a < (real i + 1) * (360 / real n))" for i
    using inSlice_iff [OF _ a] by blast
  ultimately show ?thesis by simp
qed

lemma findSlice_finds:
  "\<exists>i. k \<le> i \<and> i < n \<and> inSlice n a i \<Longrightarrow>
   \<exists>i. findSlice n a k = Some i \<and> k \<le> i \<and> i < n \<and> inSlice n a i"
proof (induction n a k rule: findSlice.induct)
  case (1 n pa i)
  show ?case
  proof (cases "inSlice n pa i")
    case True
    then show ?thesis using "1.prems" by (subst findSlice.simps) auto
  next
    case False
    from "1.prems" obtain j where j: "i \<le> j" "j < n" "inSlice n pa j" by blast
    with False have "i \<noteq> j" by auto
    with j have "Suc i \<le> j" by simp
    with j have "\<exists>j. Suc i \<le> j \<and> j < n \<and> inSlice n pa j" by blast
    moreover have "i < n" using j by simp
    ultimately obtain r where "findSlice n pa (Suc i) = Some r \<and> Suc i \<le> r \<and> r < n \<and> inSlice n pa r"
      using "1.IH" False by blast
    then show ?thesis using False \<open>i < n\<close> by (subst findSlice.simps) auto
  qed
qed

section \<open>The angle map\<close>

lemma segmentCenter_normalize:
  "segmentCenter w i = normalize360 ((real i * w - 90) + w / 2)"
  by (simp add: segmentCenter_def normalize360_def)

lemma forEachEntry_angle_other:
  "t \<notin> ticketNumber ` set es \<Longrightarrow>
   map_of (ticketToAngle (forEachEntry w es k m)) t = map_of (ticketToAngle m) t"
  by (induction es arbitrary: k m) (auto simp: setEntry_def update_conv')

lemma forEachEntry_index_other:
  "t \<notin> ticketNumber ` set es \<Longrightarrow>
   map_of (ticketToIndex (forEachEntry w es k m)) t = map_of (ticketToIndex m) t"
  by (induction es arbitrary: k m) (auto simp: setEntry_def update_conv')

lemma forEachEntry_last:
  "i < length es \<Longrightarrow> \<forall>j. i < j \<and> j < length es \<longrightarrow> ticketNumber (es ! j) \<noteq> ticketNumber (es ! i) \<Longrightarrow>
   map_of (ticketToAngle (forEachEntry w es k m)) (ticketNumber (es ! i)) = Some (segmentCenter w (k + i))
   \<and> map_of (ticketToIndex (forEachEntry w es k m)) (ticketNumber (es ! i)) = Some (k + i)"
proof (induction es arbitrary: i k m)
  case Nil
  then show ?case by simp
next
  case (Cons e es)
  show ?case
  proof (cases i)
    case 0
    have "\<forall>j < length es. ticketNumber (es ! j) \<noteq> ticketNumber e"
    proof (intro allI impI)
      fix j assume "j < length es"
      then have "ticketNumber ((e # es) ! Suc j) \<noteq> ticketNumber ((e # es) ! i)"
        using Cons.prems(2) 0 by auto
      then show "ticketNumber (es ! j) \<noteq> ticketNumber e" using 0 by simp
    qed
    then have "ticketNumber e \<notin> ticketNumber ` set es"
      by (auto simp: in_set_conv_nth)
    then show ?thesis using 0
      by (simp add: forEachEntry_angle_other forEachEntry_index_other setEntry_def update_conv')
  next
    case (Suc i')
    have "i' < length es" using Cons.prems(1) Suc by simp
    moreover have "\<forall>j. i' < j \<and> j < length es \<longrightarrow> ticketNumber (es ! j) \<noteq> ticketNumber (es ! i')"
    proof (intro allI impI)
      fix j assume "i' < j \<and> j < length es"
      then have "ticketNumber ((e # es) ! Suc j) \<noteq> ticketNumber ((e # es) ! i)"
        using Cons.prems(2) Suc by auto
      then show "ticketNumber (es ! j) \<noteq> ticketNumber (es ! i')" using Suc by simp
    qed
    ultimately show ?thesis using Cons.IH [of i' "Suc k"] Suc by simp
  qed
qed

lemma forEachEntry_keys:
  "fst ` set (ticketToAngle (forEachEntry w es k m)) = fst ` set (ticketToAngle m) \<union> ticketNumber ` set es"
  by (induction es arbitrary: k m) (auto simp: setEntry_def dom_update)

lemma forEachEntry_distinct:
  "distinct (map fst (ticketToAngle m)) \<Longrightarrow> distinct (map fst (ticketToAngle (forEachEntry w es k m)))"
  by (induction es arbitrary: k m) (auto simp: setEntry_def distinct_update)

lemma buildTicketAngleMap_nonempty:
  "es \<noteq> [] \<Longrightarrow>
   buildTicketAngleMap es = forEachEntry (360 / real (length es)) es 0 emptyTicketAngleMap"
  by (simp add: buildTicketAngleMap_def Let_def)

lemma buildTicketAngleMap_size:
  "length (ticketToAngle (buildTicketAngleMap es)) = card (ticketNumber ` set es)"
proof (cases es)
  case Nil
  then show ?thesis by (simp add: buildTicketAngleMap_def emptyTicketAngleMap_def)
next
  case (Cons e es')
  let ?m = "forEachEntry (360 / real (length es)) es 0 emptyTicketAngleMap"
  have b: "buildTicketAngleMap es = ?m" using Cons by (intro buildTicketAngleMap_nonempty) simp
  have d: "distinct (map fst (ticketToAngle ?m))"
    by (rule forEachEntry_distinct) (simp add: emptyTicketAngleMap_def)
  have k: "set (map fst (ticketToAngle ?m)) = ticketNumber ` set es"
    by (simp add: forEachEntry_keys emptyTicketAngleMap_def)
  have "length (ticketToAngle ?m) = length (map fst (ticketToAngle ?m))" by simp
  also have "\<dots> = card (set (map fst (ticketToAngle ?m)))" using d by (simp only: distinct_card)
  finally show ?thesis unfolding b k .
qed

section \<open>Spin requests\<close>










section \<open>The queue of the storage\<close>

lemma allTicketsExist_ok:
  "set ts \<subseteq> ticketNumber ` set es \<Longrightarrow> allTicketsExist es ts = Inr ()"
  by (induction ts) (auto simp: list_ex_iff)

lemma allTicketsExist_missing:
  "\<not> set ts \<subseteq> ticketNumber ` set es \<Longrightarrow> \<exists>e. allTicketsExist es ts = Inl e"
  by (induction ts) (auto simp: list_ex_iff Let_def)

section \<open>The claims\<close>

subsection \<open>C1: round trip of a targeted spin\<close>

text \<open>
  C1. The claim: for every non-empty entity list, every ticket in the angle map, every
  starting rotation, profile and draw, resolving the winner from the rotation planned
  by \<open>calculateFixedSpinByTicket\<close> gives the segment index of the ticket.
  The code does not do this. On the wheel \<open>T1\<close> to \<open>T8\<close>, where \<open>T3\<close> has index \<open>2\<close>
  and centre \<open>22.5\<close>: from rotation \<open>0\<close> with profile B, six whole turns and micro-offset
  \<open>0\<close>, the planned rotation is \<open>2182.5\<close> and the winner calculation selects index \<open>1\<close>;
  from rotation \<open>337.5\<close>, where the pointer already rests on the centre of \<open>T3\<close>, with
  profile A and \<open>5.5\<close> turns, the planned rotation is \<open>2317.5\<close> and index \<open>6\<close> is selected.
  In the component, one spin of the idle wheel with the queue \<open>[T3]\<close> ends with the
  winner \<open>T2\<close>.
\<close>

theorem targeted_spin_misses_target:
  "map_of (ticketToIndex (buildTicketAngleMap wheel8)) ''T3'' = Some 2
   \<and> getAngleForTicket ''T3'' (buildTicketAngleMap wheel8) = Some (45 / 2)
   \<and> calculateFixedSpinByTicket 0 ''T3'' (buildTicketAngleMap wheel8) (Some ProfileB) drawsLow
        = Inr \<lparr>endRotation = 4365 / 2, duration = 10800, profile = Some ProfileB\<rparr>
   \<and> resolveWinner (length wheel8) (4365 / 2) = 1
   \<and> calculateFixedSpinByTicket (675 / 2) ''T3'' (buildTicketAngleMap wheel8) (Some ProfileA) drawsLow
        = Inr \<lparr>endRotation = 4635 / 2, duration = 10750, profile = Some ProfileA\<rparr>
   \<and> resolveWinner (length wheel8) (4635 / 2) = 6
   \<and> fixedTicketsQueueRef idleWheel8 = [''T3'']
   \<and> winner (completeSpin runningWheel8)
        = Some \<lparr>winnerTicketNumber = Some ''T2'', winnerIndex = 1\<rparr>"
  by code_simp

subsection \<open>C2: the slices partition the circle\<close>

text \<open>
  C2. For every entity count \<open>n > 0\<close> and every angle \<open>a\<close> of \<open>[0, 360)\<close>, exactly one
  of the \<open>n\<close> slice tests of the winner calculation accepts \<open>a\<close>: the half-open
  intervals from \<open>normalize(i * (360 / n) - 90)\<close> to \<open>normalize((i + 1) * (360 / n) - 90)\<close>,
  with the wraparound test, partition \<open>[0, 360)\<close>. So the first loop always finds a
  slice, for the angle \<open>a\<close> and for the pointer angle of every rotation, and the
  closest-centre fallback is never reached.
\<close>

theorem slice_intervals_partition:
  assumes "0 < n" and "0 \<le> a" and "a < 360"
  shows "(\<exists>!i. i < n \<and> inSlice n a i)
         \<and> (\<forall>i. inSlice n a i \<longleftrightarrow>
               (if normalize360 (real i * (360 / real n) - 90) < normalize360 ((real i + 1) * (360 / real n) - 90)
                then normalize360 (real i * (360 / real n) - 90) \<le> a
                     \<and> a < normalize360 ((real i + 1) * (360 / real n) - 90)
                else normalize360 (real i * (360 / real n) - 90) \<le> a
                     \<or> a < normalize360 ((real i + 1) * (360 / real n) - 90)))
         \<and> (\<exists>i. findSlice n a 0 = Some i \<and> i < n \<and> inSlice n a i)
         \<and> (\<forall>frozenRot. findSlice n (pointerAngle frozenRot) 0 \<noteq> None)"
proof -
  have part: "\<exists>!i. i < n \<and> inSlice n b i" if "0 \<le> b" "b < 360" for b
    using assms(1) that by (rule slice_partition)
  have found: "\<exists>i. findSlice n b 0 = Some i \<and> 0 \<le> i \<and> i < n \<and> inSlice n b i"
    if "0 \<le> b" "b < 360" for b
  proof (rule findSlice_finds)
    from part [OF that] obtain i where "i < n \<and> inSlice n b i" by blast
    then show "\<exists>i. 0 \<le> i \<and> i < n \<and> inSlice n b i" by blast
  qed
  have "findSlice n (pointerAngle r) 0 \<noteq> None" for r
    using found [of "pointerAngle r"] pointerAngle_range [of r] by auto
  then show ?thesis
    using part [OF assms(2,3)] found [OF assms(2,3)] inSlice_normalize [of n a] by blast
qed

text \<open>
  The theorem at eight slices and the angle \<open>337.5\<close>.
\<close>

theorem slice_intervals_partition_witness:
  "(\<exists>!i. i < (8::nat) \<and> inSlice 8 (675 / 2) i)
   \<and> (\<exists>i. findSlice 8 (675 / 2) 0 = Some i \<and> i < 8 \<and> inSlice 8 (675 / 2) i)
   \<and> (\<forall>frozenRot. findSlice 8 (pointerAngle frozenRot) 0 \<noteq> None)"
proof -
  have h1: "0 < (8::nat)" by simp
  have h2: "0 \<le> (675 / 2 :: real)" by simp
  have h3: "(675 / 2 :: real) < 360" by simp
  from slice_intervals_partition [OF h1 h2 h3] show ?thesis by blast
qed

subsection \<open>C3: the formula of the angle map\<close>

text \<open>
  C3. For every non-empty ordered entity list of length \<open>N\<close> (its ticket numbers unique,
  as the data model has them) and every position \<open>i\<close>, \<open>buildTicketAngleMap\<close> stores for
  the ticket at position \<open>i\<close> the angle \<open>((x % 360) + 360) % 360\<close> with
  \<open>x = (i * (360 / N) - 90) + (360 / N) / 2\<close>, that is \<open>normalize(x)\<close>, the representative
  of \<open>x\<close> in \<open>[0, 360)\<close>; \<open>getAngleForTicket\<close> returns this stored angle, and it reads
  \<open>ticketToAngle\<close> only: changing \<open>ticketToIndex\<close> does not change its result.
\<close>

theorem angle_index_build_formula:
  assumes "distinct (map ticketNumber es)" and "i < length es"
  shows "map_of (ticketToAngle (buildTicketAngleMap es)) (ticketNumber (es ! i))
           = Some (jsmod (jsmod ((real i * (360 / real (length es)) - 90) + (360 / real (length es)) / 2) 360 + 360) 360)
         \<and> getAngleForTicket (ticketNumber (es ! i)) (buildTicketAngleMap es)
           = Some (normalize360 ((real i * (360 / real (length es)) - 90) + (360 / real (length es)) / 2))
         \<and> normalize360 ((real i * (360 / real (length es)) - 90) + (360 / real (length es)) / 2)
           = ((real i * (360 / real (length es)) - 90) + (360 / real (length es)) / 2)
             - 360 * of_int \<lfloor>((real i * (360 / real (length es)) - 90) + (360 / real (length es)) / 2) / 360\<rfloor>
         \<and> getAngleForTicket t (m\<lparr>ticketToIndex := ix\<rparr>) = getAngleForTicket t m"
proof -
  have ne: "es \<noteq> []" using assms(2) by auto
  have later: "\<forall>j. i < j \<and> j < length es \<longrightarrow> ticketNumber (es ! j) \<noteq> ticketNumber (es ! i)"
  proof (intro allI impI)
    fix j assume j: "i < j \<and> j < length es"
    then have "i < length (map ticketNumber es)" "j < length (map ticketNumber es)" by simp_all
    from nth_eq_iff_index_eq [OF assms(1) this] j
    show "ticketNumber (es ! j) \<noteq> ticketNumber (es ! i)" by auto
  qed
  have "map_of (ticketToAngle (buildTicketAngleMap es)) (ticketNumber (es ! i))
          = Some (segmentCenter (360 / real (length es)) i)"
    using forEachEntry_last [OF assms(2) later, of "360 / real (length es)" 0 emptyTicketAngleMap]
    by (simp add: buildTicketAngleMap_nonempty [OF ne])
  then show ?thesis
    by (simp add: getAngleForTicket_def segmentCenter_normalize normalize360_floor [symmetric])
       (simp add: normalize360_def)
qed

text \<open>
  The theorem at position \<open>2\<close> of the wheel of eight entries.
\<close>

theorem angle_index_build_formula_witness:
  "distinct (map ticketNumber wheel8) \<and> 2 < length wheel8
   \<and> getAngleForTicket ''T3'' (buildTicketAngleMap wheel8) = Some (45 / 2)"
proof -
  have h1: "distinct (map ticketNumber wheel8)" by (simp add: wheel8_def)
  have h2: "2 < length wheel8" by (simp add: wheel8_def)
  have n: "normalize360 ((real 2 * (360 / real (length wheel8)) - 90) + (360 / real (length wheel8)) / 2) = 45 / 2"
    by code_simp
  have t: "ticketNumber (wheel8 ! 2) = ''T3''" by code_simp
  show ?thesis using h1 h2 angle_index_build_formula [OF h1 h2] unfolding n t by simp
qed

subsection \<open>C4: the clamp of the micro-offset\<close>

text \<open>
  C4. For a ticket found in the angle map (so the map has \<open>N \<ge> 1\<close> keys), every profile
  and every draw in \<open>[0, 1)\<close>, \<open>calculateFixedSpinByTicket\<close> returns a rotation whose
  micro-offset term is at most \<open>0.3 * (360 / N)\<close> in absolute value, where \<open>N\<close> is the
  size of the map; for \<open>500\<close> entries the micro-offset is at most \<open>0.216\<close>.
\<close>

theorem micro_offset_clamp:
  assumes "map_of (ticketToAngle m) t = Some targetAngle"
    and "0 \<le> rndMicro d" and "rndMicro d < 1"
  shows "\<exists>res sel mo.
           calculateFixedSpinByTicket r t m p d = Inr res
           \<and> sel = selectProfile p (rndProfile d)
           \<and> mo = microOffset (baseMicroOffsetRange sel) (length (ticketToAngle m)) (rndMicro d)
           \<and> endRotation res = r + (fixedRotations sel (rndRotations d) * 360 + angleToTarget r targetAngle + mo)
           \<and> 1 \<le> length (ticketToAngle m)
           \<and> \<bar>mo\<bar> \<le> 0.3 * (360 / real (length (ticketToAngle m)))
           \<and> \<bar>microOffset (baseMicroOffsetRange sel) 500 (rndMicro d)\<bar> \<le> 0.216"
proof -
  define sel where "sel = selectProfile p (rndProfile d)"
  define u where "u = rndMicro d"
  have u: "\<bar>u - 0.5\<bar> \<le> 0.5" using assms(2,3) unfolding u_def by linarith
  have base: "0 < baseMicroOffsetRange sel"
    by (simp add: baseMicroOffsetRange_def profileParams_def split: option.splits RotationProfile.splits)
  have bound: "\<bar>microOffset (baseMicroOffsetRange sel) n u\<bar> \<le> 0.3 * (360 / real n)" if "1 \<le> n" for n
  proof -
    define ms where "ms = 360 / real n * 0.3"
    have ms: "0 < ms" using that by (simp add: ms_def)
    define rg where "rg = min (baseMicroOffsetRange sel) ms"
    have rg: "0 \<le> rg" "rg \<le> ms" using base ms by (simp_all add: rg_def)
    have "\<bar>(u - 0.5) * rg\<bar> = \<bar>u - 0.5\<bar> * rg" using rg by (simp add: abs_mult)
    also have "\<dots> \<le> 0.5 * ms" using u rg by (intro mult_mono) auto
    also have "\<dots> \<le> ms" using ms by simp
    finally have "\<bar>(u - 0.5) * rg\<bar> \<le> ms" .
    then show ?thesis by (simp add: microOffset_def Let_def rg_def ms_def)
  qed
  have len: "1 \<le> length (ticketToAngle m)"
    using assms(1) by (cases "ticketToAngle m") auto
  have b500: "\<bar>microOffset (baseMicroOffsetRange sel) 500 u\<bar> \<le> 0.216"
    using bound [of 500] by simp
  show ?thesis
    using assms(1) bound [OF len] len b500
    by (simp add: calculateFixedSpinByTicket_def Let_def sel_def u_def)
qed

text \<open>
  The theorem on the wheel of eight entries.
\<close>

theorem micro_offset_clamp_witness:
  "\<exists>res sel mo.
     calculateFixedSpinByTicket 0 ''T3'' (buildTicketAngleMap wheel8) (Some ProfileB) drawsLow = Inr res
     \<and> sel = selectProfile (Some ProfileB) (rndProfile drawsLow)
     \<and> mo = microOffset (baseMicroOffsetRange sel) (length (ticketToAngle (buildTicketAngleMap wheel8))) (rndMicro drawsLow)
     \<and> endRotation res = 0 + (fixedRotations sel (rndRotations drawsLow) * 360 + angleToTarget 0 (45 / 2) + mo)
     \<and> 1 \<le> length (ticketToAngle (buildTicketAngleMap wheel8))
     \<and> \<bar>mo\<bar> \<le> 0.3 * (360 / real (length (ticketToAngle (buildTicketAngleMap wheel8))))
     \<and> \<bar>microOffset (baseMicroOffsetRange sel) 500 (rndMicro drawsLow)\<bar> \<le> 0.216"
proof -
  have h1: "map_of (ticketToAngle (buildTicketAngleMap wheel8)) ''T3'' = Some (45 / 2)" by code_simp
  have h2: "0 \<le> rndMicro drawsLow" by (simp add: drawsLow_def)
  have h3: "rndMicro drawsLow < 1" by (simp add: drawsLow_def)
  show ?thesis by (rule micro_offset_clamp [OF h1 h2 h3])
qed

subsection \<open>C5: an unknown ticket falls back to a natural spin\<close>



subsection \<open>C6: replacing the queue is atomic\<close>

text \<open>
  C6. If the input of \<open>setFixedTicketsQueue\<close> has more than three tickets, or a duplicate,
  or a ticket that no entry of the current list carries, the call raises and the
  snapshot is unchanged; otherwise the stored queue becomes the input, in order
  (and \<open>lastUpdated\<close> the current time), the rest of the snapshot unchanged.
\<close>

theorem queue_replacement_atomic:
  "((3 < length tickets \<or> \<not> distinct tickets \<or> (\<exists>t \<in> set tickets. t \<notin> ticketNumber ` set (entries s)))
      \<longrightarrow> (\<exists>e. setFixedTicketsQueue tickets now s = (Inl e, s)))
   \<and> (\<not> (3 < length tickets \<or> \<not> distinct tickets \<or> (\<exists>t \<in> set tickets. t \<notin> ticketNumber ` set (entries s)))
      \<longrightarrow> setFixedTicketsQueue tickets now s
            = (Inr (), s\<lparr>fixedTicketsQueue := tickets, lastUpdated := now\<rparr>))"
proof -
  have d: "length (remdups tickets) \<noteq> length tickets \<longleftrightarrow> \<not> distinct tickets"
    by (simp add: length_remdups_eq)
  have m: "(\<exists>t \<in> set tickets. t \<notin> ticketNumber ` set (entries s))
           \<longleftrightarrow> \<not> set tickets \<subseteq> ticketNumber ` set (entries s)" by blast
  show ?thesis
  proof (cases "set tickets \<subseteq> ticketNumber ` set (entries s)")
    case True
    then show ?thesis unfolding m
      by (simp add: setFixedTicketsQueue_def d allTicketsExist_ok)
  next
    case False
    from allTicketsExist_missing [OF False] obtain e
      where "allTicketsExist (entries s) tickets = Inl e" by blast
    then show ?thesis unfolding m using False
      by (simp add: setFixedTicketsQueue_def d)
  qed
qed

text \<open>
  The theorem on an unknown ticket, on a duplicate and on a valid queue.
\<close>

theorem queue_replacement_atomic_witness:
  "(\<exists>e. setFixedTicketsQueue [''T1'', ''T9''] 2000 snapshot8 = (Inl e, snapshot8))
   \<and> (\<exists>e. setFixedTicketsQueue [''T1'', ''T1''] 2000 snapshot8 = (Inl e, snapshot8))
   \<and> setFixedTicketsQueue [''T2'', ''T1''] 2000 snapshot8
       = (Inr (), snapshot8\<lparr>fixedTicketsQueue := [''T2'', ''T1''], lastUpdated := 2000\<rparr>)"
proof -
  have e: "ticketNumber ` set (entries snapshot8)
           = {''T1'', ''T2'', ''T3'', ''T4'', ''T5'', ''T6'', ''T7'', ''T8''}"
    by (simp add: snapshot8_def)
  show ?thesis
    using queue_replacement_atomic [of "[''T1'', ''T9'']" snapshot8 2000]
          queue_replacement_atomic [of "[''T1'', ''T1'']" snapshot8 2000]
          queue_replacement_atomic [of "[''T2'', ''T1'']" snapshot8 2000]
    unfolding e by simp
qed

subsection \<open>C7: a spin request on an empty wheel\<close>

text \<open>
  C7 as stated asks that the refusal is reported to the caller. \<open>spinWheel\<close> on an
  empty wheel raises nothing: it returns as it does on every other path.
\<close>

theorem empty_wheel_refusal_counterexample:
  "\<not> isl (spinWheel emptyWheel drawsLow)"
  by (simp add: spinWheel_def emptyWheel_def)

text \<open>
  C7, amended. For every state with an empty entity list a spin request is refused:
  \<open>spinWheel\<close> returns normally and the state is unchanged (no rotation change, no queue
  consumption, no winner, no plan); the refusal is silent.
\<close>

theorem empty_wheel_refusal:
  assumes "namesRef s = []"
  shows "spinWheel s d = Inr s"
  using assms by (simp add: spinWheel_def)

text \<open>
  The theorem on the empty wheel.
\<close>

theorem empty_wheel_refusal_witness:
  "namesRef emptyWheel = [] \<and> spinWheel emptyWheel drawsLow = Inr emptyWheel"
proof -
  have h: "namesRef emptyWheel = []" by (simp add: emptyWheel_def)
  show ?thesis using h empty_wheel_refusal [OF h, of drawsLow] by simp
qed

subsection \<open>C8: the queue is consumed first in, first out, and runs empty\<close>



subsection \<open>C9: one spin at a time\<close>

text \<open>
  C9. In every state where \<open>isSpinning\<close> is true a spin request changes nothing: the
  queue, the spin count and the plan in flight (its end rotation and duration) are
  as before.
\<close>

theorem running_spin_request_is_noop:
  assumes "isSpinning s"
  shows "spinWheel s d = Inr s"
  using assms by (simp add: spinWheel_def)

text \<open>
  The theorem on the state reached by one spin request on the wheel of eight entries.
\<close>

theorem running_spin_request_is_noop_witness:
  "isSpinning runningWheel8 \<and> inFlight runningWheel8 \<noteq> None
   \<and> spinWheel runningWheel8 drawsLow = Inr runningWheel8"
proof -
  have h: "isSpinning runningWheel8" by code_simp
  have i: "inFlight runningWheel8 \<noteq> None" by code_simp
  show ?thesis using h i running_spin_request_is_noop [OF h, of drawsLow] by simp
qed

subsection \<open>C10: a repeated ticket number\<close>

text \<open>
  C10. If two entries at positions \<open>i < j\<close> carry the same ticket number and \<open>j\<close> is its
  last position, the built map binds the ticket to the angle and the index of position
  \<open>j\<close>; the keys of \<open>ticketToAngle\<close> are distinct, their number is the number of distinct
  ticket numbers, which is less than the number of entries; and the micro-offset that
  \<open>calculateFixedSpinByTicket\<close> adds is the draw minus \<open>0.5\<close>, times the smaller of the
  base range and \<open>0.3\<close> of the slice width \<open>360 / K\<close>, where \<open>K\<close> is that number of distinct
  ticket numbers, not the number of entries.
\<close>

theorem duplicate_ticket_last_binding:
  assumes "i < j" and "j < length es"
    and "ticketNumber (es ! i) = ticketNumber (es ! j)"
    and "\<forall>k. j < k \<and> k < length es \<longrightarrow> ticketNumber (es ! k) \<noteq> ticketNumber (es ! j)"
  shows "map_of (ticketToAngle (buildTicketAngleMap es)) (ticketNumber (es ! i))
           = Some (segmentCenter (360 / real (length es)) j)
         \<and> map_of (ticketToIndex (buildTicketAngleMap es)) (ticketNumber (es ! i)) = Some j
         \<and> distinct (map fst (ticketToAngle (buildTicketAngleMap es)))
         \<and> length (ticketToAngle (buildTicketAngleMap es)) = card (ticketNumber ` set es)
         \<and> length (ticketToAngle (buildTicketAngleMap es)) < length es
         \<and> (\<exists>res. calculateFixedSpinByTicket r (ticketNumber (es ! i)) (buildTicketAngleMap es) p d = Inr res
               \<and> endRotation res
                   = r + (fixedRotations (selectProfile p (rndProfile d)) (rndRotations d) * 360
                          + angleToTarget r (segmentCenter (360 / real (length es)) j)
                          + (rndMicro d - 0.5)
                            * min (baseMicroOffsetRange (selectProfile p (rndProfile d)))
                                  (360 / real (card (ticketNumber ` set es)) * 0.3)))"
proof -
  let ?M = "buildTicketAngleMap es"
  have ne: "es \<noteq> []" using assms(2) by auto
  have M: "?M = forEachEntry (360 / real (length es)) es 0 emptyTicketAngleMap"
    using ne by (rule buildTicketAngleMap_nonempty)
  have last: "map_of (ticketToAngle ?M) (ticketNumber (es ! j)) = Some (segmentCenter (360 / real (length es)) j)
              \<and> map_of (ticketToIndex ?M) (ticketNumber (es ! j)) = Some j"
    unfolding M using forEachEntry_last [OF assms(2,4), of "360 / real (length es)" 0 emptyTicketAngleMap]
    by simp
  have dist: "distinct (map fst (ticketToAngle ?M))"
    unfolding M by (rule forEachEntry_distinct) (simp add: emptyTicketAngleMap_def)
  have size: "length (ticketToAngle ?M) = card (ticketNumber ` set es)"
    by (rule buildTicketAngleMap_size)
  have "\<not> distinct (map ticketNumber es)"
  proof
    assume d: "distinct (map ticketNumber es)"
    have ij: "i < length (map ticketNumber es)" "j < length (map ticketNumber es)"
      using assms(1,2) by simp_all
    have "map ticketNumber es ! i = map ticketNumber es ! j" using assms(1,2,3) by simp
    then have "i = j" using nth_eq_iff_index_eq [OF d ij] by simp
    then show False using assms(1) by simp
  qed
  then have "card (set (map ticketNumber es)) \<noteq> length (map ticketNumber es)"
    using card_distinct by blast
  moreover have "card (set (map ticketNumber es)) \<le> length (map ticketNumber es)"
    by (rule card_length)
  ultimately have less: "card (ticketNumber ` set es) < length es" by simp
  have calc: "\<exists>res. calculateFixedSpinByTicket r (ticketNumber (es ! j)) ?M p d = Inr res
               \<and> endRotation res
                   = r + (fixedRotations (selectProfile p (rndProfile d)) (rndRotations d) * 360
                          + angleToTarget r (segmentCenter (360 / real (length es)) j)
                          + (rndMicro d - 0.5)
                            * min (baseMicroOffsetRange (selectProfile p (rndProfile d)))
                                  (360 / real (card (ticketNumber ` set es)) * 0.3))"
    using last size by (simp add: calculateFixedSpinByTicket_def microOffset_def Let_def)
  show ?thesis unfolding assms(3) using last dist size less calc by simp
qed

text \<open>
  The theorem on 33 entries with 32 distinct ticket numbers, profile C and the
  micro-offset draw \<open>0\<close>: the clamp is \<open>0.3 * (360 / 32) = 3.375\<close>, below the base range
  \<open>3.5\<close>, and the offset is \<open>-0.5 * 3.375\<close>.
\<close>

theorem duplicate_ticket_last_binding_witness:
  "map_of (ticketToAngle (buildTicketAngleMap dupWheel33)) ''T01'' = Some (2910 / 11)
   \<and> map_of (ticketToIndex (buildTicketAngleMap dupWheel33)) ''T01'' = Some 32
   \<and> length (ticketToAngle (buildTicketAngleMap dupWheel33)) = 32
   \<and> length dupWheel33 = 33
   \<and> (\<exists>res. calculateFixedSpinByTicket 0 ''T01'' (buildTicketAngleMap dupWheel33) (Some ProfileC) drawsZero
               = Inr res
         \<and> endRotation res = 1872 + 2910 / 11 + (0 - 0.5) * (360 / 32 * 0.3))"
proof -
  have h1: "(0::nat) < 32" by simp
  have l: "length dupWheel33 = 33" by (simp add: dupWheel33_def)
  have h2: "32 < length dupWheel33" unfolding l by simp
  have t0: "ticketNumber (dupWheel33 ! 0) = ''T01''" by code_simp
  have t32: "ticketNumber (dupWheel33 ! 32) = ''T01''" by code_simp
  have h3: "ticketNumber (dupWheel33 ! 0) = ticketNumber (dupWheel33 ! 32)" unfolding t0 t32 ..
  have h4: "\<forall>k. 32 < k \<and> k < length dupWheel33
              \<longrightarrow> ticketNumber (dupWheel33 ! k) \<noteq> ticketNumber (dupWheel33 ! 32)"
  proof (intro allI impI)
    fix k assume "32 < k \<and> k < length dupWheel33"
    then have False unfolding l by linarith
    then show "ticketNumber (dupWheel33 ! k) \<noteq> ticketNumber (dupWheel33 ! 32)" ..
  qed
  have n: "length (ticketToAngle (buildTicketAngleMap dupWheel33)) = 32" by code_simp
  have c: "segmentCenter (360 / real (length dupWheel33)) 32 = 2910 / 11" by code_simp
  note th = duplicate_ticket_last_binding [OF h1 h2 h3 h4, of 0 "Some ProfileC" drawsZero]
  have k: "card (ticketNumber ` set dupWheel33) = 32" using th n by simp
  have ar: "0 + (fixedRotations (selectProfile (Some ProfileC) (rndProfile drawsZero)) (rndRotations drawsZero) * 360
                 + angleToTarget 0 (2910 / 11)
                 + (rndMicro drawsZero - 0.5)
                   * min (baseMicroOffsetRange (selectProfile (Some ProfileC) (rndProfile drawsZero)))
                         (360 / real (32::nat) * 0.3))
            = (1872 + 2910 / 11 + (0 - 0.5) * (360 / 32 * 0.3) :: real)"
    by code_simp
  note th' = th [unfolded t0 c k]
  from th' obtain res where
    r1: "calculateFixedSpinByTicket 0 ''T01'' (buildTicketAngleMap dupWheel33) (Some ProfileC) drawsZero = Inr res"
    and r2: "endRotation res
       = 0 + (fixedRotations (selectProfile (Some ProfileC) (rndProfile drawsZero)) (rndRotations drawsZero) * 360
                 + angleToTarget 0 (2910 / 11)
                 + (rndMicro drawsZero - 0.5)
                   * min (baseMicroOffsetRange (selectProfile (Some ProfileC) (rndProfile drawsZero)))
                         (360 / real (32::nat) * 0.3))"
    by blast
  have e: "endRotation res = 1872 + 2910 / 11 + (0 - 0.5) * (360 / 32 * 0.3)"
    unfolding r2 by (rule ar)
  show ?thesis using th' l n r1 e by blast
qed

end

